theory Spec2Isabelle
  imports Main "HOL-Library.Word"
begin

section \<open>Paths and the directory tree\<close>

text \<open>
  Paths are Python \<open>str\<close> values, modelled as \<open>string\<close>. File contents are byte
  strings. The path functions of \<open>posixpath\<close> that \<open>char_shapes.py\<close> calls are written
  out: \<open>os.path.join\<close> and \<open>os.path.basename\<close>; \<open>os.path.dirname\<close> is used by the
  model of \<open>open\<close> to find the parent directory.
\<close>

type_synonym path = string
type_synonym bytes = "8 word list"

definition sep :: char where
  "sep = CHR ''/''"

text \<open>\<open>posixpath.join(a, b)\<close> for two arguments.\<close>

definition path_join :: "path \<Rightarrow> path \<Rightarrow> path" where
  "path_join a b =
     (if b \<noteq> [] \<and> hd b = sep then b
      else if a = [] \<or> last a = sep then a @ b
      else a @ sep # b)"

text \<open>\<open>posixpath.basename(p)\<close>: everything after the last separator.\<close>

definition basename :: "path \<Rightarrow> path" where
  "basename p = rev (takeWhile (\<lambda>c. c \<noteq> sep) (rev p))"

text \<open>
  \<open>posixpath.dirname(p)\<close>: everything up to the last separator, with trailing
  separators stripped unless the head consists of separators only.
\<close>

definition path_dirname :: "path \<Rightarrow> path" where
  "path_dirname p =
     (let h = rev (dropWhile (\<lambda>c. c \<noteq> sep) (rev p))
      in if h \<noteq> [] \<and> (\<exists>c \<in> set h. c \<noteq> sep)
         then rev (dropWhile (\<lambda>c. c = sep) (rev h)) else h)"

text \<open>Python's \<open>sub in s\<close> on strings: \<open>sub\<close> occurs in \<open>s\<close> as a contiguous substring.\<close>

fun str_contains :: "string \<Rightarrow> string \<Rightarrow> bool" where
  "str_contains sub [] = (sub = [])"
| "str_contains sub (c # cs) = (take (length sub) (c # cs) = sub \<or> str_contains sub cs)"

text \<open>
  A directory's content as \<open>os.scandir\<close> reports it: entries in listing order, each a
  regular file (its name) or a directory (its name and its own content). Symbolic links
  are not modelled. A \<open>dirtree\<close> is the content of one directory.
\<close>

datatype fsnode = File string | Dir string "fsnode list"

type_synonym dirtree = "fsnode list"

fun is_dir :: "fsnode \<Rightarrow> bool" where
  "is_dir (Dir _ _) = True"
| "is_dir (File _) = False"

fun node_name :: "fsnode \<Rightarrow> string" where
  "node_name (Dir n _) = n"
| "node_name (File n) = n"

text \<open>The \<open>dirnames\<close> and \<open>filenames\<close> components that \<open>os.walk\<close> yields for a directory.\<close>

definition dirnames_of :: "dirtree \<Rightarrow> string list" where
  "dirnames_of cs = map node_name (filter is_dir cs)"

definition filenames_of :: "dirtree \<Rightarrow> string list" where
  "filenames_of cs = map node_name (filter (\<lambda>c. \<not> is_dir c) cs)"

type_synonym walk_entry = "path \<times> string list \<times> string list"

text \<open>
  \<open>os.walk(top)\<close>, top-down: the triple of \<open>top\<close> first, then the walk of each
  subdirectory \<open>join(top, name)\<close> in listing order.
\<close>

fun walk_node :: "path \<Rightarrow> fsnode \<Rightarrow> walk_entry list"
  and walk_children :: "path \<Rightarrow> fsnode list \<Rightarrow> walk_entry list" where
  "walk_node tp (File n) = []"
| "walk_node tp (Dir n cs) =
     (path_join tp n, dirnames_of cs, filenames_of cs) # walk_children (path_join tp n) cs"
| "walk_children tp [] = []"
| "walk_children tp (c # cs) = walk_node tp c @ walk_children tp cs"

definition walk_tree :: "path \<Rightarrow> dirtree \<Rightarrow> walk_entry list" where
  "walk_tree tp cs = (tp, dirnames_of cs, filenames_of cs) # walk_children tp cs"

text \<open>
  The file system: what the operating system finds at a path, a regular file with its
  content or a directory with its content, or nothing. \<open>os.walk\<close> swallows the error
  of \<open>scandir\<close> (its \<open>onerror\<close> is \<open>None\<close>) and yields nothing where the path is not
  a directory.
\<close>

datatype entry = RegFile bytes | Directory dirtree

type_synonym filesystem = "path \<Rightarrow> entry option"

definition os_walk :: "filesystem \<Rightarrow> path \<Rightarrow> walk_entry list" where
  "os_walk ds tp = (case ds tp of Some (Directory cs) \<Rightarrow> walk_tree tp cs | _ \<Rightarrow> [])"

section \<open>Character index builder\<close>

record img_info =
  image_path :: path
  code_point :: string

definition raw_folder :: string where
  "raw_folder = ''raw''"

text \<open>
  \<open>get_characters_dir\<close>: for every triple of the walk of \<open>data_dir\<close>, every
  subdirectory name containing \<open>U+\<close>, joined to the directory it was listed in.
\<close>

definition get_characters_dir :: "filesystem \<Rightarrow> path \<Rightarrow> path list" where
  "get_characters_dir ds data_dir =
     concat (map (\<lambda>(dirname, dirnames, _).
               map (\<lambda>subdirname. path_join dirname subdirname)
                   (filter (\<lambda>subdirname. str_contains ''U+'' subdirname) dirnames))
             (os_walk ds data_dir))"

text \<open>
  The body of the outer loop of \<open>load_img_list\<close> for one triple of a walk: the label
  appended to \<open>classes\<close>, and the records appended to \<open>images_with_labels\<close>.
\<close>

definition entry_label :: "walk_entry \<Rightarrow> string" where
  "entry_label e = (case e of (dirname, _, _) \<Rightarrow> basename dirname)"

definition entry_images :: "walk_entry \<Rightarrow> img_info list" where
  "entry_images e = (case e of (dirname, _, filenames) \<Rightarrow>
     map (\<lambda>filename. \<lparr>image_path = path_join dirname filename,
                       code_point = basename dirname\<rparr>) filenames)"

text \<open>
  \<open>load_img_list\<close> returns \<open>images_with_labels\<close> and \<open>list(set(classes))\<close>. The order
  of the second list is that of a Python set, which the language leaves open, so the model
  returns the set itself.
\<close>

definition visited :: "filesystem \<Rightarrow> path \<Rightarrow> walk_entry list" where
  "visited ds root =
     concat (map (os_walk ds) (get_characters_dir ds (path_join root raw_folder)))"

definition load_img_list :: "filesystem \<Rightarrow> path \<Rightarrow> img_info list \<times> string set" where
  "load_img_list ds root =
     (concat (map entry_images (visited ds root)),
      set (map entry_label (visited ds root)))"

section \<open>Errors and the outside world\<close>

text \<open>
  The exceptions the code can meet: \<open>IndexError\<close> of list indexing, \<open>KeyError\<close> of
  the checksum table, \<open>OSError\<close> with its \<open>errno\<close>, and the failures of the external
  collaborators (network, archive extraction, image decoding, caller's transform).
\<close>

datatype errno = EEXIST | ENOENT | ENOTDIR | EISDIR

datatype error =
    IndexError
  | KeyError
  | OSError errno
  | NetworkError
  | ExtractError
  | DecodeError
  | TransformError

text \<open>
  What \<open>urllib.request.urlopen(url)\<close> and the later \<open>data.read()\<close> give for a URL:
  the connection fails, or it opens and the read of the body fails, or the body arrives.
\<close>

datatype net_reply = OpenFails | ReadFails | Body bytes

text \<open>
  The state the code acts on: the file system, the lines printed, and the URLs opened by
  \<open>urlopen\<close>, in order.
\<close>

record world =
  fs :: filesystem
  stdout :: "string list"
  requests :: "string list"

text \<open>
  The external collaborators, as parameters: the MD5 hex digest of a byte string
  (\<open>hashlib.md5\<close>), the network, and \<open>ZipFile(path).extractall(target_dir)\<close>, which
  reads the archive's bytes and changes the file system, with or without an error.
\<close>

record env =
  md5hex :: "bytes \<Rightarrow> string"
  urlopen :: "string \<Rightarrow> net_reply"
  extractall :: "bytes \<Rightarrow> path \<Rightarrow> filesystem \<Rightarrow> error option \<times> filesystem"

definition print :: "string \<Rightarrow> world \<Rightarrow> world" where
  "print line w = w\<lparr>stdout := stdout w @ [line]\<rparr>"

section \<open>Integrity verifier\<close>

text \<open>
  \<open>iter(lambda: f.read(n), b'')\<close>: the chunks of at most \<open>n\<close> bytes read from the
  file, up to the first empty one.
\<close>

function read_chunks :: "nat \<Rightarrow> bytes \<Rightarrow> bytes list" where
  "read_chunks n bs =
     (let chunk = take n bs
      in if chunk = [] then [] else chunk # read_chunks n (drop n bs))"
  by pat_completeness auto
termination
  by (relation "measure (\<lambda>(n, bs). length bs)") auto

declare read_chunks.simps [simp del]

definition chunk_size :: nat where
  "chunk_size = 1024 * 1024"

text \<open>
  A \<open>hashlib\<close> object holds the bytes fed to it; \<open>update\<close> appends, \<open>hexdigest\<close> is
  the digest of all of them.
\<close>

definition md5_update :: "bytes \<Rightarrow> bytes \<Rightarrow> bytes" where
  "md5_update md5o chunk = md5o @ chunk"

definition isfile :: "filesystem \<Rightarrow> path \<Rightarrow> bool" where
  "isfile ds p = (case ds p of Some (RegFile _) \<Rightarrow> True | _ \<Rightarrow> False)"

definition check_integrity :: "env \<Rightarrow> filesystem \<Rightarrow> path \<Rightarrow> string \<Rightarrow> bool" where
  "check_integrity ev ds fpath md5 =
     (if \<not> isfile ds fpath then False
      else case ds fpath of
        Some (RegFile content) \<Rightarrow>
          (let md5o = foldl md5_update [] (read_chunks chunk_size content);
               md5c = md5hex ev md5o
           in if md5c \<noteq> md5 then False else True)
      | _ \<Rightarrow> False)"

section \<open>Archive acquisition\<close>

definition book_ids :: "string list" where
  "book_ids =
    [''200003076'', ''200003967'', ''200014740'', ''200021637'', ''200021660'',
     ''200021712'', ''200021763'', ''200021802'', ''200021851'', ''200021853'',
     ''200021869'', ''200021925'', ''200022050'', ''brsk00000'', ''hnsd00000'']"

definition zips_md5 :: "(string \<times> string) list" where
  "zips_md5 =
    [(''200021660.zip'', ''472edecf9ebb1aa73937ad298a0664a1''),
     (''200003967.zip'', ''fa3100fd0da6a670c0e63aeeedef8e5c''),
     (''200021925.zip'', ''e1f6a57bfea7f2203dc367045df6f614''),
     (''200021712.zip'', ''c516c4b44782ebec6915d6862b7a1c7b''),
     (''brsk00000.zip'', ''b52a20509e391650b6532484aae4e191''),
     (''hnsd00000.zip'', ''208956eeea1a37a231dfb2dba6cc0608''),
     (''200014740.zip'', ''4a8ded7745a8447577c98205fc9ba7a7''),
     (''200003076.zip'', ''46571ea44b897d335fc8968ad8c496de''),
     (''200022050.zip'', ''fd62690aa1cd9ab1380d8782f6dc5f76''),
     (''200021802.zip'', ''4d15096d97e95b219a6ba0d60da046a8''),
     (''200021869.zip'', ''5ebba23cf69b49ddee5abac9361d305c''),
     (''200021637.zip'', ''2c238dc7bf696a20d116c1023c38e00f''),
     (''200021853.zip'', ''3224bd91ae222d15ccbe04948bff5dd5''),
     (''200021763.zip'', ''df364b6e775f9f85b55b7aadd8f64e71''),
     (''200021851.zip'', ''0c4b941c41b0f501c235795d95ef8252'')]"

text \<open>\<open>download_url_format.format(book_id, book_id)\<close>.\<close>

definition download_url :: "string \<Rightarrow> string" where
  "download_url book_id =
     ''http://codh.rois.ac.jp/char-shape/book/'' @ book_id @ ''/'' @ book_id @ ''.zip''"

text \<open>\<open>url.rpartition('/')[2]\<close>: what follows the last \<open>/\<close>, the whole string if none.\<close>

definition rpartition_tail :: "string \<Rightarrow> string" where
  "rpartition_tail s = rev (takeWhile (\<lambda>c. c \<noteq> CHR ''/'') (rev s))"

text \<open>\<open>s.replace(old, '')\<close> for a non-empty \<open>old\<close>: every occurrence, left to right.\<close>

function str_remove :: "string \<Rightarrow> string \<Rightarrow> string" where
  "str_remove old s =
     (if old = [] \<or> s = [] then s
      else if take (length old) s = old then str_remove old (drop (length old) s)
      else hd s # str_remove old (tl s))"
  by pat_completeness auto
termination
  by (relation "measure (\<lambda>(old, s). length s)") auto

declare str_remove.simps [simp del]

text \<open>
  \<open>os.makedirs(p)\<close>: \<open>EEXIST\<close> where something is at \<open>p\<close> already, \<open>ENOTDIR\<close> where
  the parent is a regular file; otherwise the directory is there afterwards, empty.
\<close>

definition os_makedirs :: "path \<Rightarrow> world \<Rightarrow> (error \<times> world) + world" where
  "os_makedirs p w =
     (if fs w p \<noteq> None then Inl (OSError EEXIST, w)
      else if isfile (fs w) (path_dirname p) then Inl (OSError ENOTDIR, w)
      else Inr (w\<lparr>fs := (fs w)(p \<mapsto> Directory [])\<rparr>))"

text \<open>
  \<open>open(p, 'wb')\<close>: a directory cannot be opened for writing; an existing regular file
  is truncated; a new file needs its parent directory.
\<close>

definition open_wb :: "path \<Rightarrow> world \<Rightarrow> (error \<times> world) + world" where
  "open_wb p w =
     (case fs w p of
        Some (Directory _) \<Rightarrow> Inl (OSError EISDIR, w)
      | Some (RegFile _) \<Rightarrow> Inr (w\<lparr>fs := (fs w)(p \<mapsto> RegFile [])\<rparr>)
      | None \<Rightarrow>
          (case fs w (path_dirname p) of
             Some (Directory _) \<Rightarrow> Inr (w\<lparr>fs := (fs w)(p \<mapsto> RegFile [])\<rparr>)
           | Some (RegFile _) \<Rightarrow> Inl (OSError ENOTDIR, w)
           | None \<Rightarrow> Inl (OSError ENOENT, w)))"

definition os_unlink :: "path \<Rightarrow> world \<Rightarrow> (error \<times> world) + world" where
  "os_unlink p w =
     (case fs w p of
        Some (RegFile _) \<Rightarrow> Inr (w\<lparr>fs := (fs w)(p := None)\<rparr>)
      | Some (Directory _) \<Rightarrow> Inl (OSError EISDIR, w)
      | None \<Rightarrow> Inl (OSError ENOENT, w))"

text \<open>
  Lines 139 to 140: \<open>with open(file_path, 'wb') as f: f.write(data.read())\<close>. The file
  is opened, and so truncated, before the body is read.
\<close>

definition write_archive :: "net_reply \<Rightarrow> path \<Rightarrow> world \<Rightarrow> (error \<times> world) + world" where
  "write_archive data file_path w =
     (case open_wb file_path w of
        Inl ew \<Rightarrow> Inl ew
      | Inr w1 \<Rightarrow>
          (case data of
             Body b \<Rightarrow> Inr (w1\<lparr>fs := (fs w1)(file_path \<mapsto> RegFile b)\<rparr>)
           | _ \<Rightarrow> Inl (NetworkError, w1)))"

text \<open>
  Lines 143 to 147: the archive at \<open>file_path\<close> is extracted into \<open>target_dir\<close>, and
  unlinked after the \<open>with\<close> block has ended without an exception.
\<close>

definition extract_archive :: "env \<Rightarrow> path \<Rightarrow> world \<Rightarrow> (error \<times> world) + world" where
  "extract_archive ev file_path w =
     (case fs w file_path of
        Some (RegFile content) \<Rightarrow>
          (let target_dir = str_remove ''.zip'' file_path
           in case extractall ev content target_dir (fs w) of
                (Some e, ds) \<Rightarrow> Inl (e, w\<lparr>fs := ds\<rparr>)
              | (None, ds) \<Rightarrow> os_unlink file_path (w\<lparr>fs := ds\<rparr>))
      | Some (Directory _) \<Rightarrow> Inl (OSError EISDIR, w)
      | None \<Rightarrow> Inl (OSError ENOENT, w))"

text \<open>The body of the loop of \<open>download\<close> for one \<open>book_id\<close>, lines 129 to 147.\<close>

definition download_book :: "env \<Rightarrow> path \<Rightarrow> string \<Rightarrow> world \<Rightarrow> (error \<times> world) + world" where
  "download_book ev root book_id w =
     (let url = download_url book_id;
          w1 = w\<lparr>requests := requests w @ [url]\<rparr>
      in case urlopen ev url of
           OpenFails \<Rightarrow> Inl (NetworkError, w1)
         | data \<Rightarrow>
            (let filename = rpartition_tail url;
                 file_path = path_join (path_join root raw_folder) filename
             in case map_of zips_md5 filename of
                  None \<Rightarrow> Inl (KeyError, w1)
                | Some md5 \<Rightarrow>
                   if check_integrity ev (fs w1) file_path md5
                   then Inr (print (''File already downloaded and verified: '' @ filename) w1)
                   else
                     (case write_archive data file_path (print (''Downloading '' @ url) w1) of
                        Inl ew \<Rightarrow> Inl ew
                      | Inr w2 \<Rightarrow>
                          extract_archive ev file_path
                            (print (''Extracting data: '' @ filename) w2))))"

fun download_books :: "env \<Rightarrow> path \<Rightarrow> string list \<Rightarrow> world \<Rightarrow> (error \<times> world) + world" where
  "download_books ev root [] w = Inr w"
| "download_books ev root (book_id # rest) w =
     (case download_book ev root book_id w of
        Inl ew \<Rightarrow> Inl ew
      | Inr w' \<Rightarrow> download_books ev root rest w')"

text \<open>\<open>download\<close>: the raw folder is made, \<open>EEXIST\<close> tolerated, then the loop runs.\<close>

definition download :: "env \<Rightarrow> path \<Rightarrow> world \<Rightarrow> (error \<times> world) + world" where
  "download ev root w =
     (case os_makedirs (path_join root raw_folder) w of
        Inl (e, w') \<Rightarrow>
          (if e = OSError EEXIST then download_books ev root book_ids w' else Inl (e, w'))
      | Inr w' \<Rightarrow> download_books ev root book_ids w')"

section \<open>Dataset accessor\<close>

text \<open>
  The sample is the dictionary with the keys \<open>image\<close> and \<open>code_point\<close>. The decoded
  image is of any type; \<open>io.imread\<close> is a parameter that may fail. A transform is a
  caller's function on samples that may fail; \<open>None\<close> is Python's \<open>None\<close>.
\<close>

record 'img sample =
  image :: 'img
  sample_code_point :: string

record 'img char_shapes =
  root :: path
  transform :: "('img sample \<Rightarrow> error + 'img sample) option"
  target_transform :: "(string \<Rightarrow> error + string) option"
  img_list :: "img_info list"
  classes_list :: "string set"

text \<open>
  \<open>__init__\<close>, with \<open>root\<close> already expanded by \<open>os.path.expanduser\<close>: the optional
  download, then the index.
\<close>

definition init ::
  "env \<Rightarrow> path \<Rightarrow> ('img sample \<Rightarrow> error + 'img sample) option \<Rightarrow>
   (string \<Rightarrow> error + string) option \<Rightarrow> bool \<Rightarrow> world \<Rightarrow>
   (error \<times> world) + ('img char_shapes \<times> world)" where
  "init ev rt tr ttr dl w =
     (case (if dl then download ev rt w else Inr w) of
        Inl ew \<Rightarrow> Inl ew
      | Inr w' \<Rightarrow>
          (case load_img_list (fs w') rt of
             (imgs, classes) \<Rightarrow>
               Inr (\<lparr>root = rt, transform = tr, target_transform = ttr,
                     img_list = imgs, classes_list = classes\<rparr>, w')))"

definition len :: "'img char_shapes \<Rightarrow> int" where
  "len self = int (length (img_list self))"

text \<open>
  Python's \<open>xs[idx]\<close> for an integer index: a negative index counts from the end, and an
  index out of range on either side raises \<open>IndexError\<close>.
\<close>

definition list_getitem :: "'a list \<Rightarrow> int \<Rightarrow> error + 'a" where
  "list_getitem xs idx =
     (let n = int (length xs);
          j = (if idx < 0 then idx + n else idx)
      in if 0 \<le> j \<and> j < n then Inr (xs ! nat j) else Inl IndexError)"

text \<open>Lines 86 to 92 of \<open>__getitem__\<close>: decode, build the sample, transform it.\<close>

definition make_sample ::
  "(path \<Rightarrow> error + 'img) \<Rightarrow> 'img char_shapes \<Rightarrow> img_info \<Rightarrow> error + 'img sample" where
  "make_sample imread self info =
     (case imread (image_path info) of
        Inl e \<Rightarrow> Inl e
      | Inr img \<Rightarrow>
          (let smp = \<lparr>image = img, sample_code_point = code_point info\<rparr>
           in case transform self of
                Some t \<Rightarrow> t smp
              | None \<Rightarrow> Inr smp))"

definition getitem ::
  "(path \<Rightarrow> error + 'img) \<Rightarrow> 'img char_shapes \<Rightarrow> int \<Rightarrow> error + 'img sample" where
  "getitem imread self idx =
     (case list_getitem (img_list self) idx of
        Inl e \<Rightarrow> Inl e
      | Inr info \<Rightarrow> make_sample imread self info)"

definition classes :: "'img char_shapes \<Rightarrow> string set" where
  "classes self = classes_list self"

section \<open>Reference definitions and example inputs\<close>

text \<open>
  The file system that holds a given tree at a given path: every directory of the tree is
  found at its joined path with its own content, every regular file at its joined path
  (with empty content, which the index builder never reads).
\<close>

fun mount_node :: "path \<Rightarrow> fsnode \<Rightarrow> (path \<times> entry) list"
  and mount_children :: "path \<Rightarrow> fsnode list \<Rightarrow> (path \<times> entry) list" where
  "mount_node tp (File n) = [(path_join tp n, RegFile [])]"
| "mount_node tp (Dir n cs) = (path_join tp n, Directory cs) # mount_children (path_join tp n) cs"
| "mount_children tp [] = []"
| "mount_children tp (c # cs) = mount_node tp c @ mount_children tp cs"

definition mount :: "path \<Rightarrow> dirtree \<Rightarrow> filesystem" where
  "mount tp cs = map_of ((tp, Directory cs) # mount_children tp cs)"

text \<open>
  The scenario of the specification: two label directories with one image each, under
  \<open>data/raw/200003076/characters\<close>; an environment without network; an image decoder
  that returns the path as the image; the accessor \<open>__init__\<close> builds there.
\<close>

definition ex_tree :: dirtree where
  "ex_tree = [Dir ''200003076'' [Dir ''characters''
      [Dir ''U+4E00'' [File ''a.jpg''], Dir ''U+4E01'' [File ''b.jpg'']]]]"

definition ex_env :: env where
  "ex_env = \<lparr>md5hex = (\<lambda>_. []), urlopen = (\<lambda>_. OpenFails), extractall = (\<lambda>_ _ ds. (None, ds))\<rparr>"

definition ex_world :: world where
  "ex_world = \<lparr>fs = mount ''data/raw'' ex_tree, stdout = [], requests = []\<rparr>"

definition ex_imread :: "path \<Rightarrow> error + string" where
  "ex_imread p = Inr p"

definition ex_shapes :: "string char_shapes" where
  "ex_shapes = \<lparr>root = ''data'', transform = None, target_transform = None,
     img_list = [\<lparr>image_path = ''data/raw/200003076/characters/U+4E00/a.jpg'', code_point = ''U+4E00''\<rparr>,
                 \<lparr>image_path = ''data/raw/200003076/characters/U+4E01/b.jpg'', code_point = ''U+4E01''\<rparr>],
     classes_list = {''U+4E00'', ''U+4E01''}\<rparr>"


text \<open>
  A decoder that fails on every file, and a caller's transform that raises
  \<open>IndexError\<close> on every sample.
\<close>

definition ex_unreadable :: "path \<Rightarrow> error + string" where
  "ex_unreadable p = Inl DecodeError"

definition ex_failing_transform :: "string sample \<Rightarrow> error + string sample" where
  "ex_failing_transform smp = Inl IndexError"

text \<open>
  Names as a file system has them: no entry's name contains the separator.
\<close>

fun wf_node :: "fsnode \<Rightarrow> bool" and wf_names :: "fsnode list \<Rightarrow> bool" where
  "wf_node (File n) = (sep \<notin> set n)"
| "wf_node (Dir n cs) = (sep \<notin> set n \<and> wf_names cs)"
| "wf_names [] = True"
| "wf_names (c # cs) = (wf_node c \<and> wf_names cs)"

text \<open>
  The files beneath a directory, each with the name of the directory that directly
  contains it: \<open>files_children pn pp cs\<close> lists them for the content \<open>cs\<close> of the
  directory named \<open>pn\<close> at path \<open>pp\<close>. This follows the specification's words, not
  the walk of the code.
\<close>

fun files_node :: "string \<Rightarrow> path \<Rightarrow> fsnode \<Rightarrow> (path \<times> string) list"
  and files_children :: "string \<Rightarrow> path \<Rightarrow> fsnode list \<Rightarrow> (path \<times> string) list" where
  "files_node pn pp (File f) = [(path_join pp f, pn)]"
| "files_node pn pp (Dir n cs) = files_children n (path_join pp n) cs"
| "files_children pn pp [] = []"
| "files_children pn pp (c # cs) = files_node pn pp c @ files_children pn pp cs"

definition rec_pair :: "img_info \<Rightarrow> path \<times> string" where
  "rec_pair r = (image_path r, code_point r)"

definition wf_filesystem :: "filesystem \<Rightarrow> bool" where
  "wf_filesystem ds = (\<forall>p cs. ds p = Some (Directory cs) \<longrightarrow> wf_names cs)"

definition has_files :: "walk_entry \<Rightarrow> bool" where
  "has_files e = (case e of (_, _, filenames) \<Rightarrow> filenames \<noteq> [])"

text \<open>
  Two more trees: a label directory without files, and a label directory whose only
  file lies in a subdirectory with a plain name.
\<close>

definition ex_empty_label :: filesystem where
  "ex_empty_label = mount ''data/raw'' [Dir ''U+4E00'' []]"

definition ex_nested_plain :: filesystem where
  "ex_nested_plain = mount ''data/raw'' [Dir ''U+4E00'' [Dir ''sub'' [File ''a.jpg'']]]"


text \<open>
  Names for what \<open>download\<close> computes for a \<open>book_id\<close>: the \<open>filename\<close> and the
  \<open>file_path\<close> of its archive, whether the archive at that path passes the check, whether
  \<open>open(file_path, 'wb')\<close> can succeed, the message of the skip, and the world after the
  archive has been fetched and written (both lines printed, the URL opened, the body
  at \<open>file_path\<close>).
\<close>

definition archive_name :: "string \<Rightarrow> string" where
  "archive_name book_id = rpartition_tail (download_url book_id)"

definition archive_path :: "path \<Rightarrow> string \<Rightarrow> path" where
  "archive_path rt book_id = path_join (path_join rt raw_folder) (archive_name book_id)"

definition verified :: "env \<Rightarrow> path \<Rightarrow> filesystem \<Rightarrow> string \<Rightarrow> bool" where
  "verified ev rt ds book_id =
     (case map_of zips_md5 (archive_name book_id) of
        Some md5 \<Rightarrow> check_integrity ev ds (archive_path rt book_id) md5
      | None \<Rightarrow> False)"

definition writable :: "filesystem \<Rightarrow> path \<Rightarrow> bool" where
  "writable ds p =
     (case ds p of
        Some (Directory _) \<Rightarrow> False
      | Some (RegFile _) \<Rightarrow> True
      | None \<Rightarrow> (case ds (path_dirname p) of Some (Directory _) \<Rightarrow> True | _ \<Rightarrow> False))"

definition fetched :: "path \<Rightarrow> string \<Rightarrow> bytes \<Rightarrow> world \<Rightarrow> world" where
  "fetched rt book_id b w =
     w\<lparr>fs := (fs w)(archive_path rt book_id \<mapsto> RegFile b),
       stdout := stdout w @ [''Downloading '' @ download_url book_id,
                             ''Extracting data: '' @ archive_name book_id],
       requests := requests w @ [download_url book_id]\<rparr>"

definition already_msg :: "string \<Rightarrow> string" where
  "already_msg book_id = ''File already downloaded and verified: '' @ archive_name book_id"

text \<open>
  Example environments and worlds for the acquisition: a toy digest that reads the
  first byte as an index into \<open>book_ids\<close> and answers that book's checksum; a network
  that is down, and one that answers every URL with one byte; and a raw folder holding
  all fifteen archives, each passing the check.
\<close>

definition ex_md5 :: "bytes \<Rightarrow> string" where
  "ex_md5 bs =
     (case bs of
        [] \<Rightarrow> []
      | b # _ \<Rightarrow>
          (case map_of zips_md5 (archive_name (book_ids ! unat b)) of
             Some c \<Rightarrow> c
           | None \<Rightarrow> []))"

definition ex_offline :: env where
  "ex_offline = \<lparr>md5hex = ex_md5, urlopen = (\<lambda>_. OpenFails), extractall = (\<lambda>_ _ ds. (None, ds))\<rparr>"

definition ex_online :: env where
  "ex_online = \<lparr>md5hex = ex_md5, urlopen = (\<lambda>_. Body [7]), extractall = (\<lambda>_ _ ds. (None, ds))\<rparr>"

definition ex_verified :: world where
  "ex_verified =
     \<lparr>fs = map_of ((''data/raw'', Directory (map (\<lambda>book_id. File (archive_name book_id)) book_ids)) #
                  map (\<lambda>(book_id, b). (archive_path ''data'' book_id, RegFile [b]))
                    (zip book_ids [0, 1, 2, 3, 4, 5, 6, 7, 8, 9, 10, 11, 12, 13, 14])),
      stdout = [], requests = []\<rparr>"

text \<open>
  Further environments: a network on which the URL of the first book cannot be opened
  while every other URL answers; a network answering every URL with the byte \<open>1\<close>
  (which the toy digest maps to the checksum of the second book), with an extraction that
  always fails and leaves the file system as it is, and with an extraction that creates
  its target directory.
\<close>

definition ex_partial :: env where
  "ex_partial =
     \<lparr>md5hex = ex_md5,
      urlopen = (\<lambda>url. if url = download_url ''200003076'' then OpenFails else Body [7]),
      extractall = (\<lambda>_ _ ds. (None, ds))\<rparr>"

definition ex_extract_fails :: env where
  "ex_extract_fails =
     \<lparr>md5hex = ex_md5, urlopen = (\<lambda>_. Body [1]),
      extractall = (\<lambda>_ _ ds. (Some ExtractError, ds))\<rparr>"


text \<open>
  Further worlds: a raw folder holding only an archive of the second book that does not
  pass the check; one holding in addition the archive of the first book, which passes;
  the raw folder with all fifteen verified archives but the second; and the world in which
  the second archive has since been fetched and its extraction has failed.
\<close>

definition ex_stale_second :: world where
  "ex_stale_second =
     \<lparr>fs = [''data/raw'' \<mapsto> Directory [File ''200003967.zip''],
            ''data/raw/200003967.zip'' \<mapsto> RegFile [0, 2, 3]],
      stdout = [], requests = []\<rparr>"

definition ex_stale_after_verified :: world where
  "ex_stale_after_verified =
     \<lparr>fs = [''data/raw'' \<mapsto> Directory [File ''200003076.zip'', File ''200003967.zip''],
            ''data/raw/200003076.zip'' \<mapsto> RegFile [0],
            ''data/raw/200003967.zip'' \<mapsto> RegFile [0, 2, 3]],
      stdout = [], requests = []\<rparr>"



text \<open>
  The label directories of a tree, read off the tree itself: every directory beneath the
  top whose name contains \<open>U+\<close>, with its path, its name and its content, in
  top-down order. Their number is the \<open>K\<close> of the index completeness property; the
  files directly inside them are its \<open>N\<close>.
\<close>

fun node_children :: "fsnode \<Rightarrow> dirtree" where
  "node_children (Dir _ cs) = cs"
| "node_children (File _) = []"

definition is_label :: "fsnode \<Rightarrow> bool" where
  "is_label c = (is_dir c \<and> str_contains ''U+'' (node_name c))"

type_synonym label_dir = "path \<times> string \<times> dirtree"

definition labels_in :: "path \<Rightarrow> dirtree \<Rightarrow> label_dir list" where
  "labels_in tp cs =
     map (\<lambda>c. (path_join tp (node_name c), node_name c, node_children c)) (filter is_label cs)"

fun labels_node :: "path \<Rightarrow> fsnode \<Rightarrow> label_dir list"
  and labels_children :: "path \<Rightarrow> fsnode list \<Rightarrow> label_dir list" where
  "labels_node tp (File n) = []"
| "labels_node tp (Dir n cs) = labels_in (path_join tp n) cs @ labels_children (path_join tp n) cs"
| "labels_children tp [] = []"
| "labels_children tp (c # cs) = labels_node tp c @ labels_children tp cs"

definition label_dirs :: "path \<Rightarrow> dirtree \<Rightarrow> label_dir list" where
  "label_dirs tp cs = labels_in tp cs @ labels_children tp cs"

definition label_files :: "label_dir \<Rightarrow> nat" where
  "label_files l = (case l of (_, _, cs) \<Rightarrow> length (filenames_of cs))"

definition label_name :: "label_dir \<Rightarrow> string" where
  "label_name l = (case l of (_, n, _) \<Rightarrow> n)"

text \<open>
  A label directory is a leaf when it has no subdirectory, as in the documented layout
  \<open>$data_dir/*/characters/[label]/[image]\<close>.
\<close>

definition is_leaf :: "label_dir \<Rightarrow> bool" where
  "is_leaf l = (case l of (_, _, cs) \<Rightarrow> dirnames_of cs = [])"

text \<open>
  A file system is coherent with a tree at a path when every directory of the tree is found
  at its joined path with its own content: what \<open>os.walk\<close> lists beneath the top is
  what it finds when it is started again at a subdirectory.
\<close>

fun coherent_node :: "filesystem \<Rightarrow> path \<Rightarrow> fsnode \<Rightarrow> bool"
  and coherent :: "filesystem \<Rightarrow> path \<Rightarrow> fsnode list \<Rightarrow> bool" where
  "coherent_node ds tp (File n) = True"
| "coherent_node ds tp (Dir n cs) =
     (ds (path_join tp n) = Some (Directory cs) \<and> coherent ds (path_join tp n) cs)"
| "coherent ds tp [] = True"
| "coherent ds tp (c # cs) = (coherent_node ds tp c \<and> coherent ds tp cs)"

text \<open>
  The documented layout at a root: \<open>root/raw\<close> is a directory holding the tree,
  the file system is coherent with it, no name contains the separator, and every label
  directory is a leaf.
\<close>

definition label_layout :: "filesystem \<Rightarrow> path \<Rightarrow> dirtree \<Rightarrow> bool" where
  "label_layout ds rt t =
     (ds (path_join rt raw_folder) = Some (Directory t) \<and>
      coherent ds (path_join rt raw_folder) t \<and>
      wf_names t \<and>
      list_all is_leaf (label_dirs (path_join rt raw_folder) t))"

text \<open>
  The body of the comprehension of \<open>get_characters_dir\<close> for one triple of the
  walk, and the single triple that the walk of a leaf label directory yields.
\<close>

definition chars_of :: "walk_entry \<Rightarrow> path list" where
  "chars_of e = (case e of (dirname, dirnames, _) \<Rightarrow>
     map (\<lambda>subdirname. path_join dirname subdirname)
       (filter (\<lambda>subdirname. str_contains ''U+'' subdirname) dirnames))"

definition leaf_entry :: "label_dir \<Rightarrow> walk_entry" where
  "leaf_entry l = (case l of (p, _, cs) \<Rightarrow> (p, [], filenames_of cs))"

text \<open>
  A label directory nested in another label directory, holding one image.
\<close>

definition ex_nested_label :: filesystem where
  "ex_nested_label = mount ''data/raw'' [Dir ''U+4E00'' [Dir ''U+4E01'' [File ''a.jpg'']]]"

section \<open>Properties\<close>

subsection \<open>Paths\<close>

lemma takeWhile_rev_sep:
  "sep \<notin> set n \<Longrightarrow> takeWhile (\<lambda>c. c \<noteq> sep) (rev n @ sep # xs) = rev n"
  by (subst takeWhile_append2) auto

lemma takeWhile_rev_all:
  "sep \<notin> set n \<Longrightarrow> takeWhile (\<lambda>c. c \<noteq> sep) (rev n) = rev n"
  by (auto simp: takeWhile_eq_all_conv)

lemma basename_join: 
  assumes n: "sep \<notin> set n"
  shows "basename (path_join a n) = n"
proof -
  have hd: "\<not> (n \<noteq> [] \<and> hd n = sep)" using n by (cases n) auto
  show ?thesis
  proof (cases "a = []")
    case True
    have "basename n = n" unfolding basename_def by (simp only: takeWhile_rev_all[OF n] rev_rev_ident)
    moreover have "path_join a n = n" using True hd by (auto simp: path_join_def)
    ultimately show ?thesis by simp
  next
    case False
    show ?thesis
    proof (cases "last a = sep")
      case True
      have "a = butlast a @ [sep]" using False True by (metis append_butlast_last_id)
      then have "rev a = sep # rev (butlast a)" by (metis rev.simps(2) rev_rev_ident rev_swap)
      moreover have "path_join a n = a @ n" using True hd by (auto simp: path_join_def)
      ultimately show ?thesis unfolding basename_def
        by (simp only: rev_append append_Cons append_Nil takeWhile_rev_sep[OF n] rev_rev_ident)
    next
      case F2: False
      then have "path_join a n = a @ sep # n" using False hd by (auto simp: path_join_def)
      then show ?thesis unfolding basename_def
        by (simp only: rev_append rev.simps append_Cons append_Nil append_assoc takeWhile_rev_sep[OF n] rev_rev_ident)
    qed
  qed
qed

subsection \<open>The example accessor\<close>

lemmas path_simps = path_join_def basename_def sep_def raw_folder_def

lemma ex_chars: "get_characters_dir (fs ex_world) ''data/raw'' = [''data/raw/200003076/characters/U+4E00'', ''data/raw/200003076/characters/U+4E01'']"
  by (simp add: get_characters_dir_def os_walk_def ex_world_def mount_def ex_tree_def walk_tree_def dirnames_of_def filenames_of_def path_simps)

lemma ex_load: "load_img_list (fs ex_world) ''data'' = (img_list ex_shapes, classes_list ex_shapes)"
  using ex_chars
  by (simp add: load_img_list_def visited_def os_walk_def ex_world_def mount_def ex_tree_def walk_tree_def dirnames_of_def filenames_of_def path_simps ex_shapes_def entry_images_def entry_label_def insert_commute)

lemma ex_init: "init ex_env ''data'' None None False ex_world = Inr (ex_shapes, ex_world)"
  by (simp add: init_def ex_load) (simp add: ex_shapes_def)

subsection \<open>Accessor\<close>

lemma list_getitem_nonneg:
  "0 \<le> i \<Longrightarrow> i < int (length xs) \<Longrightarrow> list_getitem xs i = Inr (xs ! nat i)"
  by (simp add: list_getitem_def)

lemma list_getitem_neg:
  "1 \<le> k \<Longrightarrow> k \<le> int (length xs) \<Longrightarrow> list_getitem xs (- k) = Inr (xs ! nat (int (length xs) - k))"
  by (simp add: list_getitem_def Let_def)






text \<open>
  Claim C10, as amended. For \<open>1 \<le> k \<le> size()\<close> the index \<open>-k\<close> passes the
  index check and selects record number \<open>size() - k\<close>: \<open>get(-k)\<close> is the result of
  building the sample from that record, the same result as \<open>get(size() - k)\<close>. It
  fails with the decoder's error when the image cannot be decoded; when the image is decoded
  it is the sample itself if there is no transform, and what the transform returns for the
  sample otherwise.
\<close>

theorem getitem_negative:
  assumes "1 \<le> k" and "k \<le> len a"
  shows "list_getitem (img_list a) (- k) = Inr (img_list a ! nat (len a - k)) \<and>
         getitem imread a (- k) = make_sample imread a (img_list a ! nat (len a - k)) \<and>
         getitem imread a (- k) = getitem imread a (len a - k) \<and>
         (\<forall>e. imread (image_path (img_list a ! nat (len a - k))) = Inl e \<longrightarrow>
              getitem imread a (- k) = Inl e) \<and>
         (\<forall>img. imread (image_path (img_list a ! nat (len a - k))) = Inr img \<longrightarrow>
              getitem imread a (- k) =
                (case transform a of
                   None \<Rightarrow> Inr \<lparr>image = img, sample_code_point = code_point (img_list a ! nat (len a - k))\<rparr>
                 | Some t \<Rightarrow> t \<lparr>image = img, sample_code_point = code_point (img_list a ! nat (len a - k))\<rparr>))"
proof -
  have neg: "list_getitem (img_list a) (- k) = Inr (img_list a ! nat (len a - k))"
    using assms list_getitem_neg[of k "img_list a"] by (simp add: len_def)
  have pos: "list_getitem (img_list a) (len a - k) = Inr (img_list a ! nat (len a - k))"
    using assms list_getitem_nonneg[of "len a - k" "img_list a"] by (simp add: len_def)
  have g: "getitem imread a (- k) = make_sample imread a (img_list a ! nat (len a - k))"
    using neg by (simp add: getitem_def)
  have g': "getitem imread a (len a - k) = make_sample imread a (img_list a ! nat (len a - k))"
    using pos by (simp add: getitem_def)
  show ?thesis using neg g g' by (simp add: make_sample_def split: option.splits)
qed

theorem getitem_negative_witness:
  "(1::int) \<le> 2 \<and> 2 \<le> len ex_shapes \<and>
   ex_imread ''data/raw/200003076/characters/U+4E00/a.jpg'' =
     Inr ''data/raw/200003076/characters/U+4E00/a.jpg'' \<and>
   getitem ex_imread ex_shapes (- 2) =
     Inr \<lparr>image = ''data/raw/200003076/characters/U+4E00/a.jpg'', sample_code_point = ''U+4E00''\<rparr> \<and>
   ex_unreadable ''data/raw/200003076/characters/U+4E00/a.jpg'' = Inl DecodeError \<and>
   getitem ex_unreadable ex_shapes (- 2) = Inl DecodeError"
proof -
  have k: "(1::int) \<le> 2" by simp
  have l: "2 \<le> len ex_shapes" by (simp add: len_def ex_shapes_def)
  have r: "img_list ex_shapes ! nat (len ex_shapes - 2) =
             \<lparr>image_path = ''data/raw/200003076/characters/U+4E00/a.jpg'', code_point = ''U+4E00''\<rparr>"
    by (simp add: len_def ex_shapes_def)
  have t: "transform ex_shapes = None" by (simp add: ex_shapes_def)
  have i: "ex_imread ''data/raw/200003076/characters/U+4E00/a.jpg'' =
             Inr ''data/raw/200003076/characters/U+4E00/a.jpg''"
    by (simp add: ex_imread_def)
  have u: "ex_unreadable ''data/raw/200003076/characters/U+4E00/a.jpg'' = Inl DecodeError"
    by (simp add: ex_unreadable_def)
  have a: "getitem ex_imread ex_shapes (- 2) =
     Inr \<lparr>image = ''data/raw/200003076/characters/U+4E00/a.jpg'', sample_code_point = ''U+4E00''\<rparr>"
    using getitem_negative[OF k l, of ex_imread, THEN conjunct2, THEN conjunct2, THEN conjunct2,
            THEN conjunct2, rule_format, of "''data/raw/200003076/characters/U+4E00/a.jpg''"]
    by (simp add: r t i)
  have b: "getitem ex_unreadable ex_shapes (- 2) = Inl DecodeError"
    using getitem_negative[OF k l, of ex_unreadable, THEN conjunct2, THEN conjunct2, THEN conjunct2,
            THEN conjunct1, rule_format, of DecodeError]
    by (simp add: r u)
  from k l i a u b show ?thesis by simp
qed

text \<open>
  Claim C10 as stated fails: on the accessor built from the example tree, which holds
  two records, \<open>get(-1)\<close> does not succeed when the image cannot be decoded, and it
  fails with \<open>IndexError\<close> when the caller's transform raises it.
\<close>

theorem getitem_negative_counterexample:
  "init ex_env ''data'' None None False ex_world = Inr (ex_shapes, ex_world) \<and>
   len ex_shapes = 2 \<and>
   getitem ex_unreadable ex_shapes (- 1) = Inl DecodeError \<and>
   init ex_env ''data'' (Some ex_failing_transform) None False ex_world =
     Inr (ex_shapes\<lparr>transform := Some ex_failing_transform\<rparr>, ex_world) \<and>
   getitem ex_imread (ex_shapes\<lparr>transform := Some ex_failing_transform\<rparr>) (- 1) = Inl IndexError"
proof -
  have a: "init ex_env ''data'' (Some ex_failing_transform) None False ex_world =
     Inr (ex_shapes\<lparr>transform := Some ex_failing_transform\<rparr>, ex_world)"
    by (simp add: init_def ex_load) (simp add: ex_shapes_def)
  have b: "getitem ex_unreadable ex_shapes (- 1) = Inl DecodeError"
    by (simp add: getitem_def list_getitem_def make_sample_def ex_shapes_def ex_unreadable_def)
  have c: "getitem ex_imread (ex_shapes\<lparr>transform := Some ex_failing_transform\<rparr>) (- 1) = Inl IndexError"
    by (simp add: getitem_def list_getitem_def make_sample_def ex_shapes_def ex_imread_def
          ex_failing_transform_def)
  have d: "len ex_shapes = 2" by (simp add: len_def ex_shapes_def)
  from a b c d show ?thesis by (simp add: ex_init)
qed

text \<open>
  Claim C9. Two accessors with the same transform and the same index give the same result
  of \<open>get(i)\<close> for every \<open>i\<close>, whatever their \<open>target_transform\<close> (and \<open>root\<close>) are.
\<close>

theorem target_transform_unused:
  assumes "transform a1 = transform a2" and "img_list a1 = img_list a2"
  shows "getitem imread a1 i = getitem imread a2 i"
proof -
  have "make_sample imread a1 = make_sample imread a2"
    using assms(1) by (intro ext) (simp add: make_sample_def cong: sum.case_cong)
  then show ?thesis using assms(2) by (simp add: getitem_def split: sum.splits)
qed

theorem target_transform_unused_witness:
  "init ex_env ''data'' None None False ex_world = Inr (ex_shapes, ex_world) \<and>
   init ex_env ''data'' None (Some (\<lambda>_. Inl TransformError)) False ex_world =
     Inr (ex_shapes\<lparr>target_transform := Some (\<lambda>_. Inl TransformError)\<rparr>, ex_world) \<and>
   transform ex_shapes = transform (ex_shapes\<lparr>target_transform := Some (\<lambda>_. Inl TransformError)\<rparr>) \<and>
   img_list ex_shapes = img_list (ex_shapes\<lparr>target_transform := Some (\<lambda>_. Inl TransformError)\<rparr>) \<and>
   getitem ex_imread ex_shapes 1 =
     getitem ex_imread (ex_shapes\<lparr>target_transform := Some (\<lambda>_. Inl TransformError)\<rparr>) 1"
  using target_transform_unused[of ex_shapes "ex_shapes\<lparr>target_transform := Some (\<lambda>_. Inl TransformError)\<rparr>" ex_imread 1]
  by (simp add: ex_init) (simp add: init_def ex_load, simp add: ex_shapes_def)

subsection \<open>Integrity verifier\<close>

lemma concat_read_chunks: "0 < n \<Longrightarrow> concat (read_chunks n bs) = bs"
proof (induction n bs rule: read_chunks.induct)
  case (1 n bs)
  show ?case
  proof (cases "take n bs = []")
    case True
    then have "bs = []" using 1(2) by simp
    then show ?thesis by (subst read_chunks.simps) simp
  next
    case False
    then have "concat (read_chunks n (drop n bs)) = drop n bs" using 1 by simp
    then show ?thesis using False by (subst read_chunks.simps) (simp add: Let_def)
  qed
qed

lemma foldl_md5_update: "foldl md5_update acc chunks = acc @ concat chunks"
  by (induction chunks arbitrary: acc) (simp_all add: md5_update_def)

lemma md5_of_chunks: "foldl md5_update [] (read_chunks chunk_size content) = content"
  by (simp add: foldl_md5_update concat_read_chunks chunk_size_def)


text \<open>
  Claim C5. \<open>_check_integrity\<close> is true exactly when the path holds a regular file whose
  MD5 hex digest equals the expected string; for a path that does not exist it is false.
\<close>

theorem check_integrity_iff:
  "check_integrity ev ds p c = (\<exists>content. ds p = Some (RegFile content) \<and> md5hex ev content = c) \<and>
   (ds p = None \<longrightarrow> \<not> check_integrity ev ds p c)"
proof (cases "ds p")
  case None
  then show ?thesis by (simp add: check_integrity_def isfile_def)
next
  case (Some e)
  then show ?thesis
    by (cases e) (simp_all add: check_integrity_def isfile_def md5_of_chunks)
qed

theorem check_integrity_iff_witness:
  "(Map.empty :: filesystem) ''missing'' = None \<and>
   \<not> check_integrity ex_env Map.empty ''missing'' [] \<and>
   check_integrity ex_env [''f'' \<mapsto> RegFile [1, 2, 3]] ''f'' []"
  using check_integrity_iff[of ex_env Map.empty "''missing''" "[]"]
        check_integrity_iff[of ex_env "[''f'' \<mapsto> RegFile [1, 2, 3]]" "''f''" "[]"]
  by (simp add: ex_env_def)


subsection \<open>Character index builder: labels\<close>

lemma code_point_entry_images:
  "code_point ` set (entry_images e) = (if has_files e then {entry_label e} else {})"
proof -
  obtain d dns fns where e: "e = (d, dns, fns)" by (cases e) auto
  show ?thesis
  proof (cases fns)
    case Nil
    then show ?thesis using e by (simp add: entry_images_def has_files_def)
  next
    case (Cons f rest)
    then show ?thesis using e
      by (auto simp add: entry_images_def entry_label_def has_files_def)
  qed
qed

lemma code_points_concat:
  "code_point ` set (concat (map entry_images es)) = entry_label ` set (filter has_files es)"
  by (induction es) (auto simp: code_point_entry_images image_Un)

text \<open>
  Claim C3, as amended. The label set is the set of base names of all directories that the
  walks of the label directories visit, with or without files in them. The code points of
  the records are the base names of the visited directories that hold at least one file.
  So every record's code point is in the label set, and a label without a record is the
  name of a visited directory that holds no file directly.
\<close>

theorem index_labels:
  "snd (load_img_list ds rt) = entry_label ` set (visited ds rt) \<and>
   code_point ` set (fst (load_img_list ds rt)) = entry_label ` set (filter has_files (visited ds rt)) \<and>
   code_point ` set (fst (load_img_list ds rt)) \<subseteq> snd (load_img_list ds rt)"
proof -
  have l: "snd (load_img_list ds rt) = entry_label ` set (visited ds rt)"
    by (simp add: load_img_list_def)
  have r: "code_point ` set (fst (load_img_list ds rt)) = entry_label ` set (filter has_files (visited ds rt))"
    unfolding load_img_list_def fst_conv by (rule code_points_concat)
  have "entry_label ` set (filter has_files (visited ds rt)) \<subseteq> entry_label ` set (visited ds rt)"
    by auto
  with l r show ?thesis by simp
qed

text \<open>
  Claim C3 as stated fails on a label directory without files: its name is a label, and
  no record carries it.
\<close>

theorem index_labels_counterexample:
  "fst (load_img_list ex_empty_label ''data'') = [] \<and>
   snd (load_img_list ex_empty_label ''data'') = {''U+4E00''} \<and>
   snd (load_img_list ex_empty_label ''data'') \<noteq> code_point ` set (fst (load_img_list ex_empty_label ''data''))"
  by (simp add: load_img_list_def visited_def get_characters_dir_def os_walk_def ex_empty_label_def
       mount_def walk_tree_def dirnames_of_def filenames_of_def path_simps entry_images_def entry_label_def)

theorem index_labels_witness:
  "snd (load_img_list (fs ex_world) ''data'') = {''U+4E00'', ''U+4E01''} \<and>
   code_point ` set (fst (load_img_list (fs ex_world) ''data'')) = {''U+4E00'', ''U+4E01''} \<and>
   code_point ` set (fst (load_img_list (fs ex_world) ''data'')) \<subseteq> snd (load_img_list (fs ex_world) ''data'')"
proof -
  have l: "snd (load_img_list (fs ex_world) ''data'') = {''U+4E00'', ''U+4E01''}"
    by (simp add: ex_load) (simp add: ex_shapes_def)
  have c: "code_point ` set (fst (load_img_list (fs ex_world) ''data'')) = {''U+4E00'', ''U+4E01''}"
    by (simp add: ex_load) (simp add: ex_shapes_def)
  from index_labels[of "fs ex_world" "''data''"]
  have "code_point ` set (fst (load_img_list (fs ex_world) ''data''))
          \<subseteq> snd (load_img_list (fs ex_world) ''data'')"
    by blast
  with l c show ?thesis by blast
qed


subsection \<open>Character index builder: the label of a record\<close>

lemma rec_pair_entry_images:
  "rec_pair ` set (entry_images (d, dns, fns)) = (\<lambda>f. (path_join d f, basename d)) ` set fns"
  by (auto simp add: entry_images_def rec_pair_def image_iff)

lemma files_direct:
  "(\<lambda>f. (path_join tp f, pn)) ` set (filenames_of cs) \<subseteq> set (files_children pn tp cs)"
proof (induction cs)
  case Nil
  then show ?case by (simp add: filenames_of_def)
next
  case (Cons c cs)
  then show ?case by (cases c) (auto simp add: filenames_of_def)
qed

lemma walk_files:
  "wf_node c \<Longrightarrow>
     rec_pair ` set (concat (map entry_images (walk_node tp c))) \<subseteq> set (files_node pn tp c)"
  "wf_names cs \<Longrightarrow>
     rec_pair ` set (concat (map entry_images (walk_children tp cs))) \<subseteq> set (files_children pn tp cs)"
proof (induction tp c and tp cs arbitrary: pn and pn rule: walk_node_walk_children.induct)
  case (1 tp n)
  then show ?case by simp
next
  case (2 tp n cs)
  have n: "sep \<notin> set n" and wf: "wf_names cs" using 2(2) by simp_all
  have b: "basename (path_join tp n) = n" using n by (rule basename_join)
  have head: "rec_pair ` set (entry_images (path_join tp n, dirnames_of cs, filenames_of cs))
                \<subseteq> set (files_children n (path_join tp n) cs)"
    using files_direct[of "path_join tp n" n cs] by (simp only: rec_pair_entry_images b)
  have rest: "rec_pair ` set (concat (map entry_images (walk_children (path_join tp n) cs)))
                \<subseteq> set (files_children n (path_join tp n) cs)"
    using 2(1)[OF wf] .
  show ?case using head rest by (simp add: image_Un)
next
  case (3 tp)
  then show ?case by simp
next
  case (4 tp c cs)
  have a: "rec_pair ` set (concat (map entry_images (walk_node tp c))) \<subseteq> set (files_node pn tp c)"
    using 4(1) 4(3) by simp
  have b: "rec_pair ` set (concat (map entry_images (walk_children tp cs))) \<subseteq> set (files_children pn tp cs)"
    using 4(2) 4(3) by simp
  show ?case using a b by (simp add: image_Un) blast
qed

lemma walk_tree_files:
  assumes "wf_names cs"
  shows "rec_pair ` set (concat (map entry_images (walk_tree tp cs)))
           \<subseteq> set (files_children (basename tp) tp cs)"
proof -
  have head: "rec_pair ` set (entry_images (tp, dirnames_of cs, filenames_of cs))
                \<subseteq> set (files_children (basename tp) tp cs)"
    using files_direct[of tp "basename tp" cs] by (simp only: rec_pair_entry_images)
  show ?thesis using head walk_files(2)[OF assms, of tp "basename tp"]
    by (simp add: walk_tree_def image_Un)
qed

lemma dirnames_wf: "wf_names cs \<Longrightarrow> n \<in> set (dirnames_of cs) \<Longrightarrow> sep \<notin> set n"
proof (induction cs)
  case Nil
  then show ?case by (simp add: dirnames_of_def)
next
  case (Cons c cs)
  then show ?case by (cases c) (auto simp add: dirnames_of_def)
qed

lemma walk_dirnames_wf:
  "wf_node c \<Longrightarrow> (d, dns, fns) \<in> set (walk_node tp c) \<Longrightarrow> n \<in> set dns \<Longrightarrow> sep \<notin> set n"
  "wf_names cs \<Longrightarrow> (d, dns, fns) \<in> set (walk_children tp cs) \<Longrightarrow> n \<in> set dns \<Longrightarrow> sep \<notin> set n"
proof (induction tp c and tp cs rule: walk_node_walk_children.induct)
  case (1 tp n')
  then show ?case by simp
next
  case (2 tp n' cs)
  then show ?case using dirnames_wf[of cs n] by auto
next
  case (3 tp)
  then show ?case by simp
next
  case (4 tp c cs)
  then show ?case by auto
qed

lemma os_walk_dirnames_wf:
  assumes "wf_filesystem ds"
    and "(d, dns, fns) \<in> set (os_walk ds tp)" and "n \<in> set dns"
  shows "sep \<notin> set n"
proof (cases "ds tp")
  case None
  then show ?thesis using assms(2) by (simp add: os_walk_def)
next
  case (Some e)
  show ?thesis
  proof (cases e)
    case (RegFile b)
    then show ?thesis using Some assms(2) by (simp add: os_walk_def)
  next
    case (Directory cs)
    then have wf: "wf_names cs" using Some assms(1) by (simp add: wf_filesystem_def)
    have "(d, dns, fns) \<in> set (walk_tree tp cs)"
      using Some Directory assms(2) by (simp add: os_walk_def)
    then show ?thesis using wf assms(3) dirnames_wf[of cs n] walk_dirnames_wf(2)[OF wf, of d dns fns tp n]
      by (auto simp add: walk_tree_def)
  qed
qed

lemma char_dir_basename:
  assumes "wf_filesystem ds"
    and "char_dir \<in> set (get_characters_dir ds data_dir)"
  shows "str_contains ''U+'' (basename char_dir)"
proof -
  from assms(2) obtain d dns fns sub where e: "(d, dns, fns) \<in> set (os_walk ds data_dir)"
    and sub: "sub \<in> set dns" "str_contains ''U+'' sub" and c: "char_dir = path_join d sub"
    by (auto simp add: get_characters_dir_def)
  have "sep \<notin> set sub" using os_walk_dirnames_wf[OF assms(1) e sub(1)] .
  then have "basename char_dir = sub" using c by (simp add: basename_join)
  then show ?thesis using sub(2) by simp
qed

text \<open>
  Claim C6, as amended. Every record comes from the walk of a directory that
  \<open>get_characters_dir\<close> found, whose name contains \<open>U+\<close>; the record's code point is
  the name of the directory that directly contains its image file, which is that
  directory or one beneath it.
\<close>

theorem record_label_is_parent_name:
  assumes wf: "wf_filesystem ds"
    and r: "r \<in> set (fst (load_img_list ds rt))"
  shows "\<exists>char_dir cs.
           char_dir \<in> set (get_characters_dir ds (path_join rt raw_folder)) \<and>
           ds char_dir = Some (Directory cs) \<and>
           str_contains ''U+'' (basename char_dir) \<and>
           (image_path r, code_point r) \<in> set (files_children (basename char_dir) char_dir cs)"
proof -
  from r obtain char_dir where cd: "char_dir \<in> set (get_characters_dir ds (path_join rt raw_folder))"
    and rw: "r \<in> set (concat (map entry_images (os_walk ds char_dir)))"
    by (auto simp add: load_img_list_def visited_def)
  from rw have ne: "os_walk ds char_dir \<noteq> []" by auto
  then obtain cs where dcs: "ds char_dir = Some (Directory cs)"
    by (cases "ds char_dir") (auto simp add: os_walk_def split: entry.splits)
  have rt: "r \<in> set (concat (map entry_images (walk_tree char_dir cs)))"
    using rw dcs by (simp add: os_walk_def)
  have wfcs: "wf_names cs" using wf dcs by (simp add: wf_filesystem_def)
  have "rec_pair r \<in> set (files_children (basename char_dir) char_dir cs)"
    using walk_tree_files[OF wfcs, of char_dir] rt by blast
  then have "(image_path r, code_point r) \<in> set (files_children (basename char_dir) char_dir cs)"
    by (simp add: rec_pair_def)
  then show ?thesis using cd dcs char_dir_basename[OF wf cd] by blast
qed


lemma ex_world_wf: "wf_filesystem (fs ex_world)"
  by (auto simp add: wf_filesystem_def ex_world_def mount_def ex_tree_def path_simps split: if_splits)

theorem record_label_is_parent_name_witness:
  "wf_filesystem (fs ex_world) \<and>
   \<lparr>image_path = ''data/raw/200003076/characters/U+4E00/a.jpg'', code_point = ''U+4E00''\<rparr>
     \<in> set (fst (load_img_list (fs ex_world) ''data'')) \<and>
   (\<exists>char_dir cs.
      char_dir \<in> set (get_characters_dir (fs ex_world) (path_join ''data'' raw_folder)) \<and>
      fs ex_world char_dir = Some (Directory cs) \<and>
      str_contains ''U+'' (basename char_dir) \<and>
      (''data/raw/200003076/characters/U+4E00/a.jpg'', ''U+4E00'')
        \<in> set (files_children (basename char_dir) char_dir cs))"
proof -
  have m: "\<lparr>image_path = ''data/raw/200003076/characters/U+4E00/a.jpg'', code_point = ''U+4E00''\<rparr>
     \<in> set (fst (load_img_list (fs ex_world) ''data''))"
    by (simp add: ex_load) (simp add: ex_shapes_def)
  from record_label_is_parent_name[OF ex_world_wf m] ex_world_wf m show ?thesis by simp
qed

text \<open>
  Claim C6 as stated fails where a label directory has a subdirectory: the record of
  \<open>U+4E00/sub/a.jpg\<close> carries the code point \<open>sub\<close>, which does not contain \<open>U+\<close>.
\<close>

theorem record_label_counterexample:
  "fst (load_img_list ex_nested_plain ''data'') =
     [\<lparr>image_path = ''data/raw/U+4E00/sub/a.jpg'', code_point = ''sub''\<rparr>] \<and>
   basename ''data/raw/U+4E00/sub'' = ''sub'' \<and>
   \<not> str_contains ''U+'' ''sub''"
  by (simp add: load_img_list_def visited_def get_characters_dir_def os_walk_def ex_nested_plain_def
       mount_def walk_tree_def dirnames_of_def filenames_of_def path_simps entry_images_def)


subsection \<open>Archive acquisition\<close>

lemma open_wb_writable:
  "writable (fs w) p \<Longrightarrow> open_wb p w = Inr (w\<lparr>fs := (fs w)(p \<mapsto> RegFile [])\<rparr>)"
  by (auto simp add: writable_def open_wb_def split: option.splits entry.splits)

lemma write_archive_body:
  "writable (fs w) p \<Longrightarrow> write_archive (Body b) p w = Inr (w\<lparr>fs := (fs w)(p \<mapsto> RegFile b)\<rparr>)"
  by (simp add: write_archive_def open_wb_writable)

lemma download_book_fetch:
  assumes cat: "map_of zips_md5 (archive_name book_id) = Some md5"
    and nv: "\<not> check_integrity ev (fs w) (archive_path rt book_id) md5"
    and net: "urlopen ev (download_url book_id) = Body b"
    and wr: "writable (fs w) (archive_path rt book_id)"
  shows "download_book ev rt book_id w =
           extract_archive ev (archive_path rt book_id) (fetched rt book_id b w)"
proof -
  define w1 where "w1 = w\<lparr>requests := requests w @ [download_url book_id]\<rparr>"
  define w2 where "w2 = print (''Downloading '' @ download_url book_id) w1"
  define w3 where "w3 = w2\<lparr>fs := (fs w2)(archive_path rt book_id \<mapsto> RegFile b)\<rparr>"
  have fs2: "fs w2 = fs w" by (simp add: w2_def w1_def print_def)
  have wa: "write_archive (Body b) (archive_path rt book_id) w2 = Inr w3"
    using write_archive_body[of w2 "archive_path rt book_id" b] wr by (simp add: fs2 w3_def)
  have nv1: "\<not> check_integrity ev (fs w1) (archive_path rt book_id) md5"
    using nv by (simp add: w1_def)
  have "download_book ev rt book_id w =
          extract_archive ev (archive_path rt book_id)
            (print (''Extracting data: '' @ archive_name book_id) w3)"
    unfolding download_book_def Let_def archive_name_def[symmetric] archive_path_def[symmetric]
      w1_def[symmetric]
    using cat nv1 net wa by (simp add: w2_def)
  moreover have "print (''Extracting data: '' @ archive_name book_id) w3 = fetched rt book_id b w"
    by (rule world.equality) (simp_all add: fetched_def print_def w3_def w2_def w1_def)
  ultimately show ?thesis by simp
qed


lemma check_integrity_regfile:
  "ds p = Some (RegFile content) \<Longrightarrow> check_integrity ev ds p c = (md5hex ev content = c)"
  by (auto simp add: check_integrity_def isfile_def md5_of_chunks)



lemma download_book_offline:
  "urlopen ev (download_url book_id) = OpenFails \<Longrightarrow>
     download_book ev rt book_id w =
       Inl (NetworkError, w\<lparr>requests := requests w @ [download_url book_id]\<rparr>)"
  by (simp add: download_book_def Let_def)

lemma download_book_verified:
  assumes "verified ev rt (fs w) book_id" and "urlopen ev (download_url book_id) \<noteq> OpenFails"
  shows "download_book ev rt book_id w =
           Inr (print (already_msg book_id) (w\<lparr>requests := requests w @ [download_url book_id]\<rparr>))"
proof -
  from assms(1) obtain md5 where cat: "map_of zips_md5 (archive_name book_id) = Some md5"
    and ok: "check_integrity ev (fs w) (archive_path rt book_id) md5"
    by (auto simp add: verified_def split: option.splits)
  show ?thesis
    unfolding download_book_def Let_def archive_name_def[symmetric] archive_path_def[symmetric]
    using cat ok assms(2)
    by (cases "urlopen ev (download_url book_id)") (simp_all add: already_msg_def)
qed

lemma download_books_verified:
  "list_all (verified ev rt (fs w)) ids \<Longrightarrow>
   list_all (\<lambda>book_id. urlopen ev (download_url book_id) \<noteq> OpenFails) ids \<Longrightarrow>
   download_books ev rt ids w =
     Inr (w\<lparr>stdout := stdout w @ map already_msg ids,
            requests := requests w @ map download_url ids\<rparr>)"
proof (induction ids arbitrary: w)
  case Nil
  then show ?case by simp
next
  case (Cons a ids)
  define w1 where "w1 = print (already_msg a) (w\<lparr>requests := requests w @ [download_url a]\<rparr>)"
  have fs1: "fs w1 = fs w" by (simp add: w1_def print_def)
  have step: "download_book ev rt a w = Inr w1"
    using download_book_verified[of ev rt w a] Cons.prems by (simp add: w1_def)
  have rest: "download_books ev rt ids w1 =
     Inr (w1\<lparr>stdout := stdout w1 @ map already_msg ids,
             requests := requests w1 @ map download_url ids\<rparr>)"
    using Cons.IH[of w1] Cons.prems by (simp add: fs1)
  show ?case using step rest by (simp add: w1_def print_def)
qed


lemma ex_archive_name: "archive_name ''200003076'' = ''200003076.zip''"
  by (simp add: archive_name_def download_url_def rpartition_tail_def)

lemma ex_archive_path: "archive_path ''data'' ''200003076'' = ''data/raw/200003076.zip''"
  by (simp add: archive_path_def ex_archive_name path_simps)

lemma ex_catalog: "map_of zips_md5 ''200003076.zip'' = Some ''46571ea44b897d335fc8968ad8c496de''"
  by (simp add: zips_md5_def)

lemma ex_verified_fs:
  "fs ex_verified = map_of ((''data/raw'', Directory (map (\<lambda>book_id. File (book_id @ ''.zip'')) book_ids)) #
                  map (\<lambda>(book_id, b). (''data/raw/'' @ book_id @ ''.zip'', RegFile [b]))
                    (zip book_ids [0, 1, 2, 3, 4, 5, 6, 7, 8, 9, 10, 11, 12, 13, 14]))"
  by (simp add: ex_verified_def book_ids_def archive_path_def archive_name_def download_url_def rpartition_tail_def path_simps)

lemma ex_verified_all:
  "md5hex ev = ex_md5 \<Longrightarrow> list_all (verified ev ''data'' (fs ex_verified)) book_ids"
  unfolding ex_verified_fs
  by (simp add: verified_def ex_md5_def check_integrity_regfile
        book_ids_def archive_path_def archive_name_def download_url_def rpartition_tail_def
        zips_md5_def path_simps)

lemma ex_verified_raw: "fs ex_verified (path_join ''data'' raw_folder) \<noteq> None"
  by (simp add: ex_verified_def path_simps)

lemma ex_download_start:
  "download ev ''data'' ex_verified = download_books ev ''data'' book_ids ex_verified"
  using ex_verified_raw by (simp add: download_def os_makedirs_def)

text \<open>
  The loop of \<open>download\<close> over a catalogue split at one book: when the raw folder
  exists and the books before it are processed without error, \<open>download\<close> continues
  with the body of the loop for that book and, if that returns, with the books after it.
\<close>

lemma download_books_append:
  "download_books ev rt (xs @ ys) w =
     (case download_books ev rt xs w of
        Inl ew \<Rightarrow> Inl ew
      | Inr w' \<Rightarrow> download_books ev rt ys w')"
  by (induction xs arbitrary: w) (simp_all split: sum.splits)

lemma download_raw_exists:
  "fs w (path_join rt raw_folder) \<noteq> None \<Longrightarrow> download ev rt w = download_books ev rt book_ids w"
  by (simp add: download_def os_makedirs_def)

lemma download_reaches:
  assumes "fs w (path_join rt raw_folder) \<noteq> None"
    and "book_ids = pre @ book_id # post"
    and "download_books ev rt pre w = Inr w1"
  shows "download ev rt w =
           (case download_book ev rt book_id w1 of
              Inl ew \<Rightarrow> Inl ew
            | Inr w2 \<Rightarrow> download_books ev rt post w2)"
  unfolding download_raw_exists[OF assms(1)] assms(2) download_books_append
  by (simp add: assms(3))

lemma fetched_explicit:
  "fetched rt book_id b w1 =
     w1\<lparr>fs := (fs w1)(archive_path rt book_id \<mapsto> RegFile b),
        stdout := stdout w1 @ [''Downloading '' @ download_url book_id,
                               ''Extracting data: '' @ archive_name book_id],
        requests := requests w1 @ [download_url book_id]\<rparr>"
  by (simp add: fetched_def)

lemma download_books_single_verified:
  assumes "verified ev rt (fs w) book_id" and "urlopen ev (download_url book_id) \<noteq> OpenFails"
  shows "download_books ev rt [book_id] w =
           Inr (print (already_msg book_id) (w\<lparr>requests := requests w @ [download_url book_id]\<rparr>))"
  using download_book_verified[OF assms] by simp

lemma ex_second_name: "archive_name ''200003967'' = ''200003967.zip''"
  by (simp add: archive_name_def download_url_def rpartition_tail_def)

lemma ex_second_path: "archive_path ''data'' ''200003967'' = ''data/raw/200003967.zip''"
  by (simp add: archive_path_def ex_second_name path_simps)

lemma ex_second_catalog:
  "map_of zips_md5 ''200003967.zip'' = Some ''fa3100fd0da6a670c0e63aeeedef8e5c''"
  by (simp add: zips_md5_def)

lemma ex_raw: "path_join ''data'' raw_folder = ''data/raw''"
  by (simp add: path_simps)

lemma ex_split: "book_ids = [''200003076''] @ ''200003967'' # drop 2 book_ids"
  by (simp add: book_ids_def)

lemma ex_md5_first: "ex_md5 [0] = ''46571ea44b897d335fc8968ad8c496de''"
  by (simp add: ex_md5_def book_ids_def archive_name_def download_url_def rpartition_tail_def zips_md5_def)


lemma ex_md5_other: "ex_md5 [0, 2, 3] = ''46571ea44b897d335fc8968ad8c496de''"
  by (simp add: ex_md5_def book_ids_def archive_name_def download_url_def rpartition_tail_def zips_md5_def)

lemma ex_stale_after_verified_first:
  "md5hex ev = ex_md5 \<Longrightarrow> verified ev ''data'' (fs ex_stale_after_verified) ''200003076''"
  by (simp add: verified_def ex_archive_name ex_archive_path ex_catalog check_integrity_regfile
        ex_stale_after_verified_def ex_md5_first)

lemma ex_partial_first: "urlopen ex_partial (download_url ''200003076'') = OpenFails"
  by (simp add: ex_partial_def)















text \<open>
  Claim C7, as amended. When \<open>download\<close> reaches a catalogued book, the raw folder
  existing and every earlier book having been processed without error, and the archive of
  that book exists at its path with a digest other than the expected one, and the URL
  answers with a body, then the URL is opened and the file is overwritten with exactly the
  fetched bytes: \<open>download\<close> goes on with the extraction in a world whose file
  system holds those bytes at the archive's path, and with the remaining books if the
  extraction and the unlinking return.
\<close>

theorem redownload_overwrites:
  assumes raw: "fs w (path_join rt raw_folder) \<noteq> None"
    and ids: "book_ids = pre @ book_id # post"
    and pre: "download_books ev rt pre w = Inr w1"
    and cat: "map_of zips_md5 (archive_name book_id) = Some md5"
    and isf: "fs w1 (archive_path rt book_id) = Some (RegFile old)"
    and mism: "md5hex ev old \<noteq> md5"
    and net: "urlopen ev (download_url book_id) = Body b"
  shows "download ev rt w =
           (case extract_archive ev (archive_path rt book_id)
                   (w1\<lparr>fs := (fs w1)(archive_path rt book_id \<mapsto> RegFile b),
                       stdout := stdout w1 @ [''Downloading '' @ download_url book_id,
                                              ''Extracting data: '' @ archive_name book_id],
                       requests := requests w1 @ [download_url book_id]\<rparr>) of
              Inl ew \<Rightarrow> Inl ew
            | Inr w2 \<Rightarrow> download_books ev rt post w2)"
proof -
  have nv: "\<not> check_integrity ev (fs w1) (archive_path rt book_id) md5"
    using check_integrity_regfile[of "fs w1" "archive_path rt book_id" old ev md5] isf mism by simp
  have wr: "writable (fs w1) (archive_path rt book_id)"
    using isf by (simp add: writable_def)
  show ?thesis
    unfolding download_reaches[OF raw ids pre] download_book_fetch[OF cat nv net wr] fetched_explicit
    by (rule refl)
qed

theorem redownload_overwrites_witness:
  "fs ex_stale_after_verified (path_join ''data'' raw_folder) \<noteq> None \<and>
   book_ids = [''200003076''] @ ''200003967'' # drop 2 book_ids \<and>
   download_books ex_extract_fails ''data'' [''200003076''] ex_stale_after_verified =
     Inr (ex_stale_after_verified\<lparr>stdout := [already_msg ''200003076''],
                                  requests := [download_url ''200003076'']\<rparr>) \<and>
   map_of zips_md5 (archive_name ''200003967'') = Some ''fa3100fd0da6a670c0e63aeeedef8e5c'' \<and>
   fs ex_stale_after_verified (archive_path ''data'' ''200003967'') = Some (RegFile [0, 2, 3]) \<and>
   md5hex ex_extract_fails [0, 2, 3] \<noteq> ''fa3100fd0da6a670c0e63aeeedef8e5c'' \<and>
   urlopen ex_extract_fails (download_url ''200003967'') = Body [1] \<and>
   download ex_extract_fails ''data'' ex_stale_after_verified =
     Inl (ExtractError,
          ex_stale_after_verified
            \<lparr>fs := (fs ex_stale_after_verified)(''data/raw/200003967.zip'' \<mapsto> RegFile [1]),
             stdout := [already_msg ''200003076'', ''Downloading '' @ download_url ''200003967'',
                        ''Extracting data: 200003967.zip''],
             requests := [download_url ''200003076'', download_url ''200003967'']\<rparr>)"
proof -
  define w1 where "w1 = ex_stale_after_verified\<lparr>stdout := [already_msg ''200003076''],
                                  requests := [download_url ''200003076'']\<rparr>"
  have raw: "fs ex_stale_after_verified (path_join ''data'' raw_folder) \<noteq> None"
    by (simp add: ex_raw ex_stale_after_verified_def)
  have pre: "download_books ex_extract_fails ''data'' [''200003076''] ex_stale_after_verified = Inr w1"
    using download_books_single_verified[of ex_extract_fails "''data''" ex_stale_after_verified "''200003076''"]
      ex_stale_after_verified_first[of ex_extract_fails]
    by (simp add: ex_extract_fails_def w1_def print_def ex_stale_after_verified_def)
  have cat: "map_of zips_md5 (archive_name ''200003967'') = Some ''fa3100fd0da6a670c0e63aeeedef8e5c''"
    by (simp add: ex_second_name ex_second_catalog)
  have isf: "fs w1 (archive_path ''data'' ''200003967'') = Some (RegFile [0, 2, 3])"
    by (simp add: ex_second_path w1_def ex_stale_after_verified_def)
  have isf0: "fs ex_stale_after_verified (archive_path ''data'' ''200003967'') = Some (RegFile [0, 2, 3])"
    by (simp add: ex_second_path ex_stale_after_verified_def)
  have mism: "md5hex ex_extract_fails [0, 2, 3] \<noteq> ''fa3100fd0da6a670c0e63aeeedef8e5c''"
    by (simp add: ex_extract_fails_def ex_md5_other)
  have net: "urlopen ex_extract_fails (download_url ''200003967'') = Body [1]"
    by (simp add: ex_extract_fails_def)
  have d: "download ex_extract_fails ''data'' ex_stale_after_verified =
     Inl (ExtractError,
          ex_stale_after_verified
            \<lparr>fs := (fs ex_stale_after_verified)(''data/raw/200003967.zip'' \<mapsto> RegFile [1]),
             stdout := [already_msg ''200003076'', ''Downloading '' @ download_url ''200003967'',
                        ''Extracting data: 200003967.zip''],
             requests := [download_url ''200003076'', download_url ''200003967'']\<rparr>)"
    unfolding redownload_overwrites[OF raw ex_split pre cat isf mism net]
    by (simp add: extract_archive_def ex_second_path ex_second_name w1_def ex_extract_fails_def)
  from raw ex_split pre cat isf0 mism net d show ?thesis by (simp add: w1_def)
qed

text \<open>
  Claim C7 as stated fails when an earlier book fails. The raw folder holds an archive of
  the second book that does not pass the check, and the URL of the second book answers;
  the URL of the first book cannot be opened, so \<open>download\<close> ends there with that
  error, and the archive of the second book is neither fetched again nor overwritten.
\<close>

theorem redownload_counterexample:
  "archive_path ''data'' ''200003967'' = ''data/raw/200003967.zip'' \<and>
   fs ex_stale_second ''data/raw/200003967.zip'' = Some (RegFile [0, 2, 3]) \<and>
   map_of zips_md5 (archive_name ''200003967'') = Some ''fa3100fd0da6a670c0e63aeeedef8e5c'' \<and>
   \<not> check_integrity ex_partial (fs ex_stale_second) ''data/raw/200003967.zip''
        ''fa3100fd0da6a670c0e63aeeedef8e5c'' \<and>
   urlopen ex_partial (download_url ''200003967'') = Body [7] \<and>
   download ex_partial ''data'' ex_stale_second =
     Inl (NetworkError, ex_stale_second\<lparr>requests := [download_url ''200003076'']\<rparr>) \<and>
   fs (ex_stale_second\<lparr>requests := [download_url ''200003076'']\<rparr>) ''data/raw/200003967.zip'' =
     Some (RegFile [0, 2, 3])"
proof -
  have f: "fs ex_stale_second ''data/raw/200003967.zip'' = Some (RegFile [0, 2, 3])"
    by (simp add: ex_stale_second_def)
  have cat: "map_of zips_md5 (archive_name ''200003967'') = Some ''fa3100fd0da6a670c0e63aeeedef8e5c''"
    by (simp add: ex_second_name ex_second_catalog)
  have nv: "\<not> check_integrity ex_partial (fs ex_stale_second) ''data/raw/200003967.zip''
        ''fa3100fd0da6a670c0e63aeeedef8e5c''"
    using check_integrity_regfile[of "fs ex_stale_second" "''data/raw/200003967.zip''" "[0, 2, 3]"
            ex_partial "''fa3100fd0da6a670c0e63aeeedef8e5c''"] f
    by (simp add: ex_partial_def ex_md5_other)
  have net: "urlopen ex_partial (download_url ''200003967'') = Body [7]"
    by (simp add: ex_partial_def download_url_def)
  have raw: "fs ex_stale_second (path_join ''data'' raw_folder) \<noteq> None"
    by (simp add: ex_raw ex_stale_second_def)
  have hd: "book_ids = ''200003076'' # tl book_ids" by (simp add: book_ids_def)
  have "download_books ex_partial ''data'' (''200003076'' # tl book_ids) ex_stale_second =
          Inl (NetworkError, ex_stale_second\<lparr>requests := [download_url ''200003076'']\<rparr>)"
    using download_book_offline[OF ex_partial_first, of "''data''" ex_stale_second]
    by (simp add: ex_stale_second_def)
  then have d: "download ex_partial ''data'' ex_stale_second =
          Inl (NetworkError, ex_stale_second\<lparr>requests := [download_url ''200003076'']\<rparr>)"
    using hd download_raw_exists[OF raw, of ex_partial] by simp
  from ex_second_path f cat nv net d show ?thesis by simp
qed




text \<open>
  Claim C2 against the code. In a world where every archive of the catalogue is present
  and passes the check, \<open>download\<close> still opens the URL of every book, since
  \<open>urlopen\<close> is called before \<open>_check_integrity\<close>: with the network up, fifteen
  URLs are opened (no body is read and nothing is written); with the network down,
  \<open>download\<close> fails at the first book.
\<close>

theorem download_requests_before_check:
  "list_all (verified ex_offline ''data'' (fs ex_verified)) book_ids \<and>
   download ex_offline ''data'' ex_verified =
     Inl (NetworkError, ex_verified\<lparr>requests := [download_url ''200003076'']\<rparr>) \<and>
   list_all (verified ex_online ''data'' (fs ex_verified)) book_ids \<and>
   download ex_online ''data'' ex_verified =
     Inr (ex_verified\<lparr>stdout := map already_msg book_ids,
                      requests := map download_url book_ids\<rparr>)"
proof -
  have v1: "list_all (verified ex_offline ''data'' (fs ex_verified)) book_ids"
    by (rule ex_verified_all) (simp add: ex_offline_def)
  have v2: "list_all (verified ex_online ''data'' (fs ex_verified)) book_ids"
    by (rule ex_verified_all) (simp add: ex_online_def)
  have hd: "book_ids = ''200003076'' # tl book_ids" by (simp add: book_ids_def)
  have "download_books ex_offline ''data'' (''200003076'' # tl book_ids) ex_verified =
          Inl (NetworkError, ex_verified\<lparr>requests := [download_url ''200003076'']\<rparr>)"
    using download_book_offline[of ex_offline "''200003076''" "''data''" ex_verified]
    by (simp add: ex_offline_def ex_verified_def)
  then have d1: "download ex_offline ''data'' ex_verified =
          Inl (NetworkError, ex_verified\<lparr>requests := [download_url ''200003076'']\<rparr>)"
    using hd by (simp add: ex_download_start)
  have reach: "list_all (\<lambda>book_id. urlopen ex_online (download_url book_id) \<noteq> OpenFails) book_ids"
    by (simp add: ex_online_def list_all_iff)
  have d2: "download ex_online ''data'' ex_verified =
     Inr (ex_verified\<lparr>stdout := map already_msg book_ids,
                      requests := map download_url book_ids\<rparr>)"
    using download_books_verified[OF v2 reach]
    by (simp add: ex_download_start) (simp add: ex_verified_def)
  show ?thesis using v1 d1 v2 d2 by simp
qed

subsection \<open>Index completeness\<close>

lemma get_characters_dir_chars_of:
  "get_characters_dir ds data_dir = concat (map chars_of (os_walk ds data_dir))"
  unfolding get_characters_dir_def chars_of_def
  by (rule arg_cong[where f=concat]) (auto intro!: map_cong)

lemma chars_of_labels_in:
  "chars_of (tp, dirnames_of cs, fns) = map fst (labels_in tp cs)"
  by (induction cs) (auto simp add: chars_of_def labels_in_def dirnames_of_def is_label_def)

lemma walk_labels:
  "concat (map chars_of (walk_node tp c)) = map fst (labels_node tp c)"
  "concat (map chars_of (walk_children tp cs)) = map fst (labels_children tp cs)"
  by (induction tp c and tp cs rule: walk_node_walk_children.induct)
     (simp_all add: chars_of_labels_in)

lemma walk_tree_labels:
  "concat (map chars_of (walk_tree tp cs)) = map fst (label_dirs tp cs)"
  by (simp add: walk_tree_def label_dirs_def chars_of_labels_in walk_labels)

lemma coherent_member:
  "coherent ds tp cs \<Longrightarrow> c \<in> set cs \<Longrightarrow> is_dir c \<Longrightarrow>
     ds (path_join tp (node_name c)) = Some (Directory (node_children c))"
proof (induction cs)
  case Nil
  then show ?case by simp
next
  case (Cons a cs)
  show ?case
  proof (cases "c = a")
    case True
    then show ?thesis using Cons.prems by (cases a) simp_all
  next
    case False
    then show ?thesis using Cons by simp
  qed
qed

lemma labels_in_coherent:
  "coherent ds tp cs \<Longrightarrow> (p, n, sub) \<in> set (labels_in tp cs) \<Longrightarrow> ds p = Some (Directory sub)"
  using coherent_member[of ds tp cs] by (auto simp add: labels_in_def is_label_def)

lemma labels_coherent:
  "coherent_node ds tp c \<Longrightarrow> (p, n, sub) \<in> set (labels_node tp c) \<Longrightarrow> ds p = Some (Directory sub)"
  "coherent ds tp cs \<Longrightarrow> (p, n, sub) \<in> set (labels_children tp cs) \<Longrightarrow> ds p = Some (Directory sub)"
proof (induction tp c and tp cs rule: labels_node_labels_children.induct)
  case (1 tp n')
  then show ?case by simp
next
  case (2 tp n' cs)
  then show ?case using labels_in_coherent[of ds "path_join tp n'" cs p n sub] by auto
next
  case (3 tp)
  then show ?case by simp
next
  case (4 tp c cs)
  then show ?case by auto
qed

lemma label_dirs_coherent:
  "coherent ds tp cs \<Longrightarrow> (p, n, sub) \<in> set (label_dirs tp cs) \<Longrightarrow> ds p = Some (Directory sub)"
  using labels_in_coherent labels_coherent(2) by (auto simp add: label_dirs_def)

lemma wf_names_member:
  "wf_names cs \<Longrightarrow> c \<in> set cs \<Longrightarrow> sep \<notin> set (node_name c)"
proof (induction cs)
  case Nil
  then show ?case by simp
next
  case (Cons a cs)
  show ?case
  proof (cases "c = a")
    case True
    then show ?thesis using Cons.prems by (cases a) simp_all
  next
    case False
    then show ?thesis using Cons by (cases a) simp_all
  qed
qed

lemma labels_in_basename:
  "wf_names cs \<Longrightarrow> (p, n, sub) \<in> set (labels_in tp cs) \<Longrightarrow> basename p = n"
  using wf_names_member[of cs] by (auto simp add: labels_in_def basename_join)

lemma labels_basename:
  "wf_node c \<Longrightarrow> (p, n, sub) \<in> set (labels_node tp c) \<Longrightarrow> basename p = n"
  "wf_names cs \<Longrightarrow> (p, n, sub) \<in> set (labels_children tp cs) \<Longrightarrow> basename p = n"
proof (induction tp c and tp cs rule: labels_node_labels_children.induct)
  case (1 tp n')
  then show ?case by simp
next
  case (2 tp n' cs)
  then show ?case using labels_in_basename[of cs p n sub "path_join tp n'"] by auto
next
  case (3 tp)
  then show ?case by simp
next
  case (4 tp c cs)
  then show ?case by auto
qed

lemma label_dirs_basename:
  "wf_names cs \<Longrightarrow> (p, n, sub) \<in> set (label_dirs tp cs) \<Longrightarrow> basename p = n"
  using labels_in_basename labels_basename(2) by (auto simp add: label_dirs_def)

lemma walk_children_leaf: "dirnames_of cs = [] \<Longrightarrow> walk_children tp cs = []"
proof (induction cs)
  case Nil
  then show ?case by simp
next
  case (Cons c cs)
  then show ?case by (cases c) (simp_all add: dirnames_of_def)
qed

lemma os_walk_leaf:
  assumes "ds p = Some (Directory sub)" and "dirnames_of sub = []"
  shows "os_walk ds p = [leaf_entry (p, n, sub)]"
  using assms by (simp add: os_walk_def walk_tree_def walk_children_leaf leaf_entry_def)

lemma visited_leaf:
  assumes raw: "ds (path_join rt raw_folder) = Some (Directory t)"
    and coh: "coherent ds (path_join rt raw_folder) t"
    and leaf: "list_all is_leaf (label_dirs (path_join rt raw_folder) t)"
  shows "visited ds rt = map leaf_entry (label_dirs (path_join rt raw_folder) t)"
proof -
  let ?L = "label_dirs (path_join rt raw_folder) t"
  have g: "get_characters_dir ds (path_join rt raw_folder) = map fst ?L"
    using raw by (simp add: get_characters_dir_chars_of os_walk_def walk_tree_labels)
  have "map (os_walk ds) (map fst ?L) = map (\<lambda>l. [leaf_entry l]) ?L"
  proof (unfold map_map, rule map_cong[OF refl])
    fix l assume l: "l \<in> set ?L"
    obtain p n sub where e: "l = (p, n, sub)" by (cases l) auto
    have d: "ds p = Some (Directory sub)" using label_dirs_coherent[OF coh] l e by blast
    have lf: "dirnames_of sub = []" using leaf l e by (auto simp add: list_all_iff is_leaf_def)
    show "(os_walk ds \<circ> fst) l = [leaf_entry l]" using os_walk_leaf[of ds p sub n] d lf e by simp
  qed
  then have "concat (map (os_walk ds) (map fst ?L)) = concat (map (\<lambda>l. [leaf_entry l]) ?L)"
    by (rule arg_cong)
  also have "\<dots> = map leaf_entry ?L" by (induction ?L) simp_all
  finally show ?thesis unfolding visited_def g .
qed

lemma length_entry_images_leaf: "length (entry_images (leaf_entry l)) = label_files l"
  by (cases l) (simp add: entry_images_def leaf_entry_def label_files_def)

lemma length_concat_images:
  "length (concat (map entry_images (map leaf_entry L))) = sum_list (map label_files L)"
  by (induction L) (simp_all add: length_entry_images_leaf)

lemma entry_label_leaf:
  assumes "wf_names t" and "l \<in> set (label_dirs tp t)"
  shows "entry_label (leaf_entry l) = label_name l"
proof -
  obtain p n sub where e: "l = (p, n, sub)" by (cases l) auto
  have "basename p = n" using label_dirs_basename[OF assms(1)] assms(2) e by blast
  then show ?thesis using e by (simp add: entry_label_def leaf_entry_def label_name_def)
qed

text \<open>
  Claim C4, as amended. On the documented layout, where the directories whose names contain
  \<open>U+\<close> have no subdirectories, \<open>load_img_list\<close> returns exactly as many
  records as there are files directly inside the label directories, and its label set is the
  set of their names: at most as many labels as label directories, and exactly as many when
  their names are pairwise distinct.
\<close>

theorem index_complete:
  assumes "label_layout ds rt t"
  shows "length (fst (load_img_list ds rt)) =
           sum_list (map label_files (label_dirs (path_join rt raw_folder) t)) \<and>
         snd (load_img_list ds rt) =
           set (map label_name (label_dirs (path_join rt raw_folder) t)) \<and>
         card (snd (load_img_list ds rt)) \<le> length (label_dirs (path_join rt raw_folder) t) \<and>
         (distinct (map label_name (label_dirs (path_join rt raw_folder) t)) \<longrightarrow>
            card (snd (load_img_list ds rt)) = length (label_dirs (path_join rt raw_folder) t))"
proof -
  let ?L = "label_dirs (path_join rt raw_folder) t"
  have raw: "ds (path_join rt raw_folder) = Some (Directory t)"
    and coh: "coherent ds (path_join rt raw_folder) t"
    and wf: "wf_names t"
    and leaf: "list_all is_leaf ?L"
    using assms by (simp_all add: label_layout_def)
  have v: "visited ds rt = map leaf_entry ?L" by (rule visited_leaf[OF raw coh leaf])
  have n: "length (fst (load_img_list ds rt)) = sum_list (map label_files ?L)"
    unfolding load_img_list_def fst_conv v by (rule length_concat_images)
  have "map entry_label (map leaf_entry ?L) = map label_name ?L"
    unfolding map_map by (rule map_cong[OF refl]) (simp add: entry_label_leaf[OF wf])
  then have k: "snd (load_img_list ds rt) = set (map label_name ?L)"
    unfolding load_img_list_def snd_conv v by simp
  have c: "card (set (map label_name ?L)) \<le> length ?L"
    using card_length[of "map label_name ?L"] by simp
  have d: "distinct (map label_name ?L) \<longrightarrow> card (set (map label_name ?L)) = length ?L"
    using distinct_card[of "map label_name ?L"] by simp
  from n k c d show ?thesis by simp
qed

lemma ex_label_dirs:
  "label_dirs ''data/raw'' ex_tree =
     [(''data/raw/200003076/characters/U+4E00'', ''U+4E00'', [File ''a.jpg'']),
      (''data/raw/200003076/characters/U+4E01'', ''U+4E01'', [File ''b.jpg''])]"
  by (simp add: label_dirs_def labels_in_def is_label_def ex_tree_def path_simps)

lemma ex_label_layout: "label_layout (fs ex_world) ''data'' ex_tree"
proof -
  have r: "path_join ''data'' raw_folder = ''data/raw''" by (simp add: path_simps)
  have a: "fs ex_world ''data/raw'' = Some (Directory ex_tree)"
    by (simp add: ex_world_def mount_def)
  have b: "coherent (fs ex_world) ''data/raw'' ex_tree"
    by (simp add: ex_world_def mount_def ex_tree_def path_simps)
  have c: "wf_names ex_tree" by (simp add: ex_tree_def sep_def)
  have d: "list_all is_leaf (label_dirs ''data/raw'' ex_tree)"
    by (simp add: ex_label_dirs is_leaf_def dirnames_of_def)
  from a b c d show ?thesis unfolding label_layout_def r by simp
qed

theorem index_complete_witness:
  "label_layout (fs ex_world) ''data'' ex_tree \<and>
   sum_list (map label_files (label_dirs ''data/raw'' ex_tree)) = 2 \<and>
   length (label_dirs ''data/raw'' ex_tree) = 2 \<and>
   length (fst (load_img_list (fs ex_world) ''data'')) = 2 \<and>
   snd (load_img_list (fs ex_world) ''data'') = {''U+4E00'', ''U+4E01''} \<and>
   card (snd (load_img_list (fs ex_world) ''data'')) = 2"
proof -
  have r: "path_join ''data'' raw_folder = ''data/raw''" by (simp add: path_simps)
  have n: "sum_list (map label_files (label_dirs ''data/raw'' ex_tree)) = 2"
    by (simp add: ex_label_dirs label_files_def filenames_of_def)
  have k: "length (label_dirs ''data/raw'' ex_tree) = 2" by (simp add: ex_label_dirs)
  have s: "set (map label_name (label_dirs ''data/raw'' ex_tree)) = {''U+4E00'', ''U+4E01''}"
    by (simp add: ex_label_dirs label_name_def)
  have dn: "distinct (map label_name (label_dirs ''data/raw'' ex_tree))"
    by (simp add: ex_label_dirs label_name_def)
  from index_complete[OF ex_label_layout] ex_label_layout n k s dn show ?thesis
    unfolding r by simp
qed

lemma ex_nested_chars:
  "get_characters_dir ex_nested_label ''data/raw'' =
     [''data/raw/U+4E00'', ''data/raw/U+4E00/U+4E01'']"
  by (simp add: get_characters_dir_def os_walk_def ex_nested_label_def mount_def walk_tree_def dirnames_of_def filenames_of_def path_simps)

text \<open>
  Claim C4 as stated fails when label directories nest. With \<open>a.jpg\<close> in
  \<open>raw/U+4E00/U+4E01\<close> the tree has one file and two directories whose names contain
  \<open>U+\<close>; \<open>get_characters_dir\<close> returns both, the walk of the outer one
  visits the inner one, and the file is recorded twice.
\<close>

theorem index_nested_counterexample:
  "ex_nested_label ''data/raw'' = Some (Directory [Dir ''U+4E00'' [Dir ''U+4E01'' [File ''a.jpg'']]]) \<and>
   sum_list (map label_files (label_dirs ''data/raw'' [Dir ''U+4E00'' [Dir ''U+4E01'' [File ''a.jpg'']]])) = 1 \<and>
   length (label_dirs ''data/raw'' [Dir ''U+4E00'' [Dir ''U+4E01'' [File ''a.jpg'']]]) = 2 \<and>
   fst (load_img_list ex_nested_label ''data'') =
     [\<lparr>image_path = ''data/raw/U+4E00/U+4E01/a.jpg'', code_point = ''U+4E01''\<rparr>,
      \<lparr>image_path = ''data/raw/U+4E00/U+4E01/a.jpg'', code_point = ''U+4E01''\<rparr>] \<and>
   length (fst (load_img_list ex_nested_label ''data'')) \<noteq> 1"
proof -
  have a: "ex_nested_label ''data/raw'' = Some (Directory [Dir ''U+4E00'' [Dir ''U+4E01'' [File ''a.jpg'']]])"
    by (simp add: ex_nested_label_def mount_def)
  have L: "label_dirs ''data/raw'' [Dir ''U+4E00'' [Dir ''U+4E01'' [File ''a.jpg'']]] =
      [(''data/raw/U+4E00'', ''U+4E00'', [Dir ''U+4E01'' [File ''a.jpg'']]),
       (''data/raw/U+4E00/U+4E01'', ''U+4E01'', [File ''a.jpg''])]"
    by (simp add: label_dirs_def labels_in_def is_label_def path_simps)
  have n: "sum_list (map label_files (label_dirs ''data/raw'' [Dir ''U+4E00'' [Dir ''U+4E01'' [File ''a.jpg'']]])) = 1"
    unfolding L by (simp add: label_files_def filenames_of_def)
  have k: "length (label_dirs ''data/raw'' [Dir ''U+4E00'' [Dir ''U+4E01'' [File ''a.jpg'']]]) = 2"
    unfolding L by simp
  have f: "fst (load_img_list ex_nested_label ''data'') =
     [\<lparr>image_path = ''data/raw/U+4E00/U+4E01/a.jpg'', code_point = ''U+4E01''\<rparr>,
      \<lparr>image_path = ''data/raw/U+4E00/U+4E01/a.jpg'', code_point = ''U+4E01''\<rparr>]"
    using ex_nested_chars
    by (simp add: load_img_list_def visited_def os_walk_def ex_nested_label_def mount_def walk_tree_def dirnames_of_def filenames_of_def path_simps entry_images_def)
  from a n k f show ?thesis by simp
qed

end
